theory Spec2Isabelle
  imports Main "HOL-Library.Word" "HOL-Library.Sublist"
begin

unbundle bit_operations_syntax

section \<open>JavaScript values\<close>

text \<open>
  The component of \<^verbatim>\<open>webui/src/components/App.tsx\<close> runs in a browser. A JavaScript
  string is a sequence of UTF-16 code units, so it is a list of 16-bit words here; the
  literals of the source that are not ASCII are written by their code units.
\<close>

type_synonym jsstring = "16 word list"

definition ascii :: "string \<Rightarrow> jsstring" where
  "ascii s = map (\<lambda>c. of_nat (of_char c)) s"

text \<open>
  A value at run time: what \<^verbatim>\<open>response.json()\<close> resolves to (typed \<^verbatim>\<open>any\<close>), and
  \<^verbatim>\<open>undefined\<close>, the result of reading a property that is absent. A number is its
  IEEE 754 double, as 64 bits. An object is the list of its own properties.
\<close>

datatype jsval =
    Undefined
  | Null
  | Bool bool
  | Num "64 word"
  | Str jsstring
  | Arr "jsval list"
  | Obj "(jsstring \<times> jsval) list"

text \<open>
  ToBoolean: \<^verbatim>\<open>undefined\<close>, \<^verbatim>\<open>null\<close>, \<^verbatim>\<open>false\<close>, \<^verbatim>\<open>+0\<close>, \<^verbatim>\<open>-0\<close>, \<^verbatim>\<open>NaN\<close> and the
  empty string are falsy, everything else is truthy. With the sign bit masked off, a
  double is a zero when the rest is 0 and a NaN when the rest is above the bits of
  infinity.
\<close>

fun truthy :: "jsval \<Rightarrow> bool" where
  "truthy Undefined = False"
| "truthy Null = False"
| "truthy (Bool b) = b"
| "truthy (Num w) =
     (let m = w AND 0x7FFFFFFFFFFFFFFF in m \<noteq> 0 \<and> \<not> 0x7FF0000000000000 < m)"
| "truthy (Str s) = (s \<noteq> [])"
| "truthy (Arr xs) = True"
| "truthy (Obj kvs) = True"

text \<open>
  Reading a property \<^verbatim>\<open>v.k\<close>. On \<^verbatim>\<open>undefined\<close> and \<^verbatim>\<open>null\<close> it throws a TypeError
  (\<open>None\<close>). On an object it is the property's value, the last one when the JSON text
  repeated the key, and \<^verbatim>\<open>undefined\<close> when the object has no such property. On the
  other values the lookup goes to the prototype, which has none of the three names the
  component reads (\<^verbatim>\<open>success\<close>, \<^verbatim>\<open>summary\<close>, \<^verbatim>\<open>error\<close>), so it is \<^verbatim>\<open>undefined\<close>.
\<close>

fun getProp :: "jsval \<Rightarrow> jsstring \<Rightarrow> jsval option" where
  "getProp Undefined k = None"
| "getProp Null k = None"
| "getProp (Obj kvs) k =
     (case map_of (rev kvs) k of None \<Rightarrow> Some Undefined | Some v \<Rightarrow> Some v)"
| "getProp v k = Some Undefined"

text \<open>\<^verbatim>\<open>a || b\<close>: the left operand when it is truthy, the right one otherwise.\<close>

definition js_or :: "jsval \<Rightarrow> jsval \<Rightarrow> jsval" where
  "js_or a b = (if truthy a then a else b)"

section \<open>The URL validator\<close>

text \<open>
  \<^verbatim>\<open>String.prototype.startsWith(searchString)\<close> with no position: true when the search
  string is empty, false when it is longer than the string, otherwise the comparison of
  the string's first code units with the search string.
\<close>

definition startsWith :: "jsstring \<Rightarrow> jsstring \<Rightarrow> bool" where
  "startsWith s searchString =
     (if length searchString = 0 then True
      else if length s < length searchString then False
      else take (length searchString) s = searchString)"

definition bili_prefix :: jsstring where
  "bili_prefix = ascii ''https://www.bilibili.com/video''"

text \<open>
  \<^verbatim>\<open>function isValidBiliUrl(url: string): boolean {
    return url.startsWith('https://www.bilibili.com/video')
  }\<close>
\<close>

definition isValidBiliUrl :: "jsstring \<Rightarrow> bool" where
  "isValidBiliUrl url = startsWith url bili_prefix"

section \<open>The component's state\<close>

text \<open>
  The five \<^verbatim>\<open>useState\<close> slots of \<^verbatim>\<open>App\<close>. \<^verbatim>\<open>summary\<close> and \<^verbatim>\<open>error\<close> are declared as
  strings, but \<^verbatim>\<open>setSummary(data.summary)\<close> and \<^verbatim>\<open>setError(data.error || ...)\<close> store
  whatever the response holds, so the two slots are values. \<^verbatim>\<open>debouncedUrl\<close> is a
  constant of each render, captured by the closures of that render: it is a parameter
  of the functions below.
\<close>

record state =
  url :: jsstring
  isLoading :: bool
  summary :: jsval
  error :: jsval
  urlError :: jsstring

definition initial_state :: state where
  "initial_state =
     \<lparr>url = [], isLoading = False, summary = Str [], error = Str [], urlError = []\<rparr>"

subsection \<open>The literals of the source\<close>

definition urlError_msg :: jsstring where
  "urlError_msg =
     ascii ''URL'' @ [0x5FC5, 0x987B, 0x4EE5] @ ascii '' https://www.bilibili.com/video ''
       @ [0x5F00, 0x5934]"

definition empty_msg :: jsstring where
  "empty_msg = [0x8BF7, 0x8F93, 0x5165, 0x89C6, 0x9891] @ ascii ''URL''"

definition invalid_msg :: jsstring where
  "invalid_msg = ascii ''URL'' @ [0x683C, 0x5F0F, 0x4E0D, 0x6B63, 0x786E]"

definition fail_msg :: jsstring where
  "fail_msg = [0x603B, 0x7ED3, 0x5931, 0x8D25]"

definition net_msg :: jsstring where
  "net_msg =
     [0x7F51, 0x7EDC, 0x8BF7, 0x6C42, 0x5931, 0x8D25, 0xFF0C, 0x8BF7, 0x68C0, 0x67E5,
      0x670D, 0x52A1, 0x5668, 0x662F, 0x5426, 0x8FD0, 0x884C]"

definition success_key :: jsstring where
  "success_key = ascii ''success''"

definition summary_key :: jsstring where
  "summary_key = ascii ''summary''"

definition error_key :: jsstring where
  "error_key = ascii ''error''"

section \<open>The validation effect\<close>

text \<open>
  \<^verbatim>\<open>useEffect(() => {
    if (debouncedUrl && !isValidBiliUrl(debouncedUrl)) {
      setUrlError('...')
    } else {
      setUrlError('')
    }
  }, [debouncedUrl])\<close>
\<close>

definition validation_effect :: "jsstring \<Rightarrow> state \<Rightarrow> state" where
  "validation_effect debouncedUrl s =
     (if truthy (Str debouncedUrl) \<and> \<not> isValidBiliUrl debouncedUrl
      then s\<lparr>urlError := urlError_msg\<rparr>
      else s\<lparr>urlError := []\<rparr>)"

section \<open>The submission handler\<close>

text \<open>
  What the handler does to the world outside the component's state: it suppresses the
  browser's own submission, calls \<^verbatim>\<open>fetch\<close>, and writes to the console. The body of the
  request is \<^verbatim>\<open>JSON.stringify\<close> of a value; the serialisation is the platform's and is
  kept as a constructor.
\<close>

datatype reqbody = JSON_stringify jsval

record request =
  path :: jsstring
  http_method :: jsstring
  headers :: "(jsstring \<times> jsstring) list"
  body :: reqbody

datatype effect = PreventDefault | Fetch request | ConsoleError

fun fetches :: "effect list \<Rightarrow> request list" where
  "fetches [] = []"
| "fetches (Fetch r # fx) = r # fetches fx"
| "fetches (_ # fx) = fetches fx"

definition summary_request :: "jsstring \<Rightarrow> request" where
  "summary_request debouncedUrl =
     \<lparr>path = ascii ''/api/summary_bili'',
      http_method = ascii ''POST'',
      headers = [(ascii ''Content-Type'', ascii ''application/json'')],
      body = JSON_stringify (Obj [(ascii ''url'', Str debouncedUrl)])\<rparr>"

text \<open>
  How the two awaits of the \<^verbatim>\<open>try\<close> block end: \<^verbatim>\<open>await fetch(...)\<close> rejects,
  \<^verbatim>\<open>await response.json()\<close> rejects, or the body is parsed to a value.
\<close>

datatype outcome = FetchRejected | JsonRejected | Parsed jsval

text \<open>
  The statements of the \<^verbatim>\<open>try\<close> block after the awaits; \<open>None\<close> when one of them
  throws (reading a property of \<^verbatim>\<open>null\<close>).
  \<^verbatim>\<open>if (data.success) { setSummary(data.summary) }
  else { setError(data.error || '...') }\<close>
\<close>

definition try_block :: "outcome \<Rightarrow> state \<Rightarrow> state option" where
  "try_block out s =
     (case out of
        FetchRejected \<Rightarrow> None
      | JsonRejected \<Rightarrow> None
      | Parsed data \<Rightarrow>
          (case getProp data success_key of
             None \<Rightarrow> None
           | Some success \<Rightarrow>
               if truthy success
               then (case getProp data summary_key of
                       None \<Rightarrow> None
                     | Some v \<Rightarrow> Some (s\<lparr>summary := v\<rparr>))
               else (case getProp data error_key of
                       None \<Rightarrow> None
                     | Some e \<Rightarrow> Some (s\<lparr>error := js_or e (Str fail_msg)\<rparr>))))"

text \<open>
  The handler is asynchronous. \<open>handleSubmit_begin\<close> is what runs at the submit event,
  up to the call of \<^verbatim>\<open>fetch\<close>; \<open>handleSubmit_settle\<close> is what runs when the request
  has settled, on the state of that moment: the rest of the \<^verbatim>\<open>try\<close> block, the
  \<^verbatim>\<open>catch\<close> block when something threw, and the \<^verbatim>\<open>finally\<close> block.
\<close>

definition handleSubmit_begin :: "jsstring \<Rightarrow> state \<Rightarrow> state \<times> effect list" where
  "handleSubmit_begin debouncedUrl s =
     (if \<not> truthy (Str debouncedUrl)
      then (s\<lparr>error := Str empty_msg\<rparr>, [PreventDefault])
      else if \<not> isValidBiliUrl debouncedUrl
      then (s\<lparr>error := Str invalid_msg\<rparr>, [PreventDefault])
      else (s\<lparr>isLoading := True, error := Str [], summary := Str []\<rparr>,
            [PreventDefault, Fetch (summary_request debouncedUrl)]))"

definition handleSubmit_settle :: "outcome \<Rightarrow> state \<Rightarrow> state \<times> effect list" where
  "handleSubmit_settle out s =
     (let (s', fx) =
        (case try_block out s of
           Some s' \<Rightarrow> (s', [])
         | None \<Rightarrow> (s\<lparr>error := Str net_msg\<rparr>, [ConsoleError]))
      in (s'\<lparr>isLoading := False\<rparr>, fx))"

text \<open>
  One whole run of the handler, with nothing else happening between the request and
  its outcome.
\<close>

definition handleSubmit :: "jsstring \<Rightarrow> outcome \<Rightarrow> state \<Rightarrow> state \<times> effect list" where
  "handleSubmit debouncedUrl out s =
     (let (s1, fx1) = handleSubmit_begin debouncedUrl s
      in if fetches fx1 = [] then (s1, fx1)
         else let (s2, fx2) = handleSubmit_settle out s1 in (s2, fx1 @ fx2))"

section \<open>The element tree\<close>

text \<open>
  What \<^verbatim>\<open>App\<close> returns: creating the elements does not throw, so there is a tree for
  every state. Its parts that depend on the state are the input control, the message
  under it, the submit button and the three conditionals
  \<^verbatim>\<open>{isLoading && ...}\<close>, \<^verbatim>\<open>{error && !isLoading && ...}\<close> and
  \<^verbatim>\<open>{summary && !isLoading && ...}\<close>. A conditional that selects its panel carries the
  child the panel is given: \<^verbatim>\<open>{error}\<close> inside the error panel, \<^verbatim>\<open>{summary}\<close> as the
  children of \<^verbatim>\<open>ReactMarkdown\<close> inside the summary panel. What React shows of the
  tree is \<open>displayed\<close>, in the next section.
\<close>

record view =
  input_value :: jsstring
  input_disabled :: bool
  urlError_text :: "jsstring option"
  submit_disabled :: bool
  spinner_panel :: bool
  error_panel :: "jsval option"
  summary_panel :: "jsval option"

definition render :: "jsstring \<Rightarrow> state \<Rightarrow> view" where
  "render debouncedUrl s =
     \<lparr>input_value = url s,
      input_disabled = isLoading s,
      urlError_text = (if urlError s \<noteq> [] then Some (urlError s) else None),
      submit_disabled = (isLoading s \<or> \<not> truthy (Str debouncedUrl) \<or> urlError s \<noteq> []),
      spinner_panel = isLoading s,
      error_panel = (if truthy (error s) \<and> \<not> isLoading s then Some (error s) else None),
      summary_panel =
        (if truthy (summary s) \<and> \<not> isLoading s then Some (summary s) else None)\<rparr>"

section \<open>The result panels\<close>

text \<open>
  React then commits the tree. A string, a number, a boolean, \<^verbatim>\<open>null\<close> and
  \<^verbatim>\<open>undefined\<close> are taken as a child, an array when each of its elements is; an object
  is refused: React throws, and as the component has no error boundary the whole tree
  is unmounted and nothing is shown.
\<close>

fun react_child :: "jsval \<Rightarrow> bool" where
  "react_child (Obj kvs) = False"
| "react_child (Arr xs) = list_all react_child xs"
| "react_child v = True"

text \<open>
  The library \<^verbatim>\<open>react-markdown\<close> is not part of the source. It renders a string of
  markdown; whether it renders children of another kind, rather than throwing, is the
  parameter \<open>md\<close>. \<open>refuses_others\<close> is the library that takes strings only.
\<close>

definition markdown_child :: "(jsval \<Rightarrow> bool) \<Rightarrow> jsval \<Rightarrow> bool" where
  "markdown_child md v = (case v of Str m \<Rightarrow> True | _ \<Rightarrow> md v)"

definition refuses_others :: "jsval \<Rightarrow> bool" where
  "refuses_others v = False"

text \<open>
  The panels of a tree, from top to bottom, and what is shown of them: \<open>None\<close> when
  committing the tree throws, the panels otherwise.
\<close>

datatype panel = Spinner | ErrorPanel jsval | SummaryPanel jsval | NoPanel

definition panel_elements :: "view \<Rightarrow> panel list" where
  "panel_elements v =
     (if spinner_panel v then [Spinner] else [])
     @ (case error_panel v of Some e \<Rightarrow> [ErrorPanel e] | None \<Rightarrow> [])
     @ (case summary_panel v of Some m \<Rightarrow> [SummaryPanel m] | None \<Rightarrow> [])"

definition displayed :: "(jsval \<Rightarrow> bool) \<Rightarrow> view \<Rightarrow> panel list option" where
  "displayed md v =
     (if (case error_panel v of Some e \<Rightarrow> react_child e | None \<Rightarrow> True)
         \<and> (case summary_panel v of Some m \<Rightarrow> markdown_child md m | None \<Rightarrow> True)
      then Some (panel_elements v)
      else None)"

text \<open>
  The panel the precedence rule of the specification selects: the spinner when
  loading, else the error panel when the error is non-empty, else the summary panel when
  the summary is non-empty, else none.
\<close>

definition spec_panel :: "state \<Rightarrow> panel" where
  "spec_panel s =
     (if isLoading s then Spinner
      else if truthy (error s) then ErrorPanel (error s)
      else if truthy (summary s) then SummaryPanel (summary s)
      else NoPanel)"

definition spec_visible :: "state \<Rightarrow> panel list" where
  "spec_visible s = (case spec_panel s of NoPanel \<Rightarrow> [] | p \<Rightarrow> [p])"

section \<open>The debounce hook\<close>

text \<open>
  \<^verbatim>\<open>function useDebounce<T>(value: T, delay: number): T {
    const [debouncedValue, setDebouncedValue] = useState<T>(value)
    useEffect(() => {
      const handler = setTimeout(() => { setDebouncedValue(value) }, delay)
      return () => { clearTimeout(handler) }
    }, [value, delay])
    return debouncedValue
  }\<close>

  Time is a clock that counts the units of \<^verbatim>\<open>delay\<close>. One instance of the hook is its
  state slot, the dependencies \<^verbatim>\<open>[value, delay]\<close> of the effect's last run, the timer
  \<^verbatim>\<open>handler\<close> its cleanup function holds, and the browser's table of pending timers:
  each with its identifier, the time it is due and the value its callback will pass to
  \<^verbatim>\<open>setDebouncedValue\<close>.
\<close>

record 'a debounce =
  clock :: nat
  next_id :: nat
  timers :: "(nat \<times> nat \<times> 'a) list"
  debouncedValue :: 'a
  dep_value :: 'a
  dep_delay :: nat
  handler :: nat
  mounted :: bool

definition setTimeout :: "'a \<Rightarrow> nat \<Rightarrow> 'a debounce \<Rightarrow> nat \<times> 'a debounce" where
  "setTimeout v delay h =
     (next_id h,
      h\<lparr>next_id := Suc (next_id h),
        timers := timers h @ [(next_id h, clock h + delay, v)]\<rparr>)"

definition clearTimeout :: "nat \<Rightarrow> 'a debounce \<Rightarrow> 'a debounce" where
  "clearTimeout i h = h\<lparr>timers := filter (\<lambda>(j, due, v). j \<noteq> i) (timers h)\<rparr>"

text \<open>The effect's body, and the cleanup function it returned at its last run.\<close>

definition effect_body :: "'a \<Rightarrow> nat \<Rightarrow> 'a debounce \<Rightarrow> 'a debounce" where
  "effect_body v delay h =
     (let (i, h') = setTimeout v delay h
      in h'\<lparr>handler := i, dep_value := v, dep_delay := delay\<rparr>)"

definition effect_cleanup :: "'a debounce \<Rightarrow> 'a debounce" where
  "effect_cleanup h = clearTimeout (handler h) h"

text \<open>
  The first render: the slot starts as \<^verbatim>\<open>value\<close> and the effect runs. A later render
  with the arguments \<^verbatim>\<open>value\<close> and \<^verbatim>\<open>delay\<close>: when a dependency has changed, the
  cleanup of the last run and then the effect run; otherwise nothing. The value the
  hook returns to the component is \<open>debouncedValue\<close>. Unmounting runs the cleanup.
\<close>

definition useDebounce_mount :: "'a \<Rightarrow> nat \<Rightarrow> 'a debounce" where
  "useDebounce_mount v delay =
     effect_body v delay
       \<lparr>clock = 0, next_id = 1, timers = [], debouncedValue = v, dep_value = v,
        dep_delay = delay, handler = 0, mounted = True\<rparr>"

definition useDebounce :: "'a \<Rightarrow> nat \<Rightarrow> 'a debounce \<Rightarrow> 'a debounce" where
  "useDebounce v delay h =
     (if v = dep_value h \<and> delay = dep_delay h then h
      else effect_body v delay (effect_cleanup h))"

definition unmount :: "'a debounce \<Rightarrow> 'a debounce" where
  "unmount h = (effect_cleanup h)\<lparr>mounted := False\<rparr>"

text \<open>
  A timer's callback calls \<^verbatim>\<open>setDebouncedValue\<close>, which React ignores once the
  component is unmounted. When \<open>n\<close> units pass, the timers that are due by then run
  in the order of their due times and leave the table.
\<close>

definition fire :: "'a debounce \<Rightarrow> nat \<times> nat \<times> 'a \<Rightarrow> 'a debounce" where
  "fire h t = (case t of (i, due, v) \<Rightarrow> if mounted h then h\<lparr>debouncedValue := v\<rparr> else h)"

definition advance :: "nat \<Rightarrow> 'a debounce \<Rightarrow> 'a debounce" where
  "advance n h =
     (let now = clock h + n;
          due_now = filter (\<lambda>(i, due, v). due \<le> now) (timers h);
          later = filter (\<lambda>(i, due, v). \<not> due \<le> now) (timers h)
      in foldl fire (h\<lparr>clock := now, timers := later\<rparr>)
           (sort_key (\<lambda>(i, due, v). due) due_now))"

text \<open>
  A run of changes of the hook's \<^verbatim>\<open>value\<close> argument: each pair is the time since the
  change before it and the new value; the delay stays the one of the last effect run.
\<close>

fun changes :: "'a debounce \<Rightarrow> (nat \<times> 'a) list \<Rightarrow> 'a debounce" where
  "changes h [] = h"
| "changes h ((gap, v) # cs) = changes (useDebounce v (dep_delay h) (advance gap h)) cs"

text \<open>
  Every change comes less than \<open>d\<close> after the one before it, and is a change: the
  value differs from the one before, \<open>u\<close> at first.
\<close>

fun rapid :: "nat \<Rightarrow> 'a \<Rightarrow> (nat \<times> 'a) list \<Rightarrow> bool" where
  "rapid d u [] = True"
| "rapid d u ((gap, v) # cs) = (gap < d \<and> v \<noteq> u \<and> rapid d v cs)"

text \<open>
  What holds of every instance of the hook: a pending timer is the one the cleanup
  function holds, it carries the current \<^verbatim>\<open>value\<close>, and identifiers are not reused.
\<close>

definition hook_inv :: "'a debounce \<Rightarrow> bool" where
  "hook_inv h \<longleftrightarrow>
     handler h < next_id h \<and>
     (timers h = [] \<or> (\<exists>due. timers h = [(handler h, due, dep_value h)]))"

text \<open>The instance right after a change to \<open>v\<close>: its timer is pending, due \<open>d\<close> later.\<close>

definition armed :: "'a debounce \<Rightarrow> nat \<Rightarrow> 'a \<Rightarrow> bool" where
  "armed h d v \<longleftrightarrow>
     mounted h \<and> handler h < next_id h \<and> dep_value h = v \<and> dep_delay h = d
     \<and> timers h = [(handler h, clock h + d, v)]"

section \<open>The component as a transition system\<close>

text \<open>
  The component's state, the instance of \<^verbatim>\<open>useDebounce(url, 300)\<close>, the value of
  \<^verbatim>\<open>debouncedUrl\<close> at the last run of the validation effect (its dependency), and the
  requests that have not settled.
\<close>

record app =
  slots :: state
  hook :: "jsstring debounce"
  effect_dep :: jsstring
  inflight :: "request list"

definition debouncedUrl :: "app \<Rightarrow> jsstring" where
  "debouncedUrl w = debouncedValue (hook w)"

definition view_of :: "app \<Rightarrow> view" where
  "view_of w = render (debouncedUrl w) (slots w)"

text \<open>
  After a state update React renders \<^verbatim>\<open>App\<close> again, which calls the hook with the
  current \<^verbatim>\<open>url\<close>, and then runs the validation effect when \<^verbatim>\<open>debouncedUrl\<close> is not
  what it was at the effect's last run.
\<close>

definition commit :: "app \<Rightarrow> app" where
  "commit w =
     (let h = useDebounce (url (slots w)) 300 (hook w);
          d = debouncedValue h
      in w\<lparr>hook := h,
           slots := (if d = effect_dep w then slots w else validation_effect d (slots w)),
           effect_dep := d\<rparr>)"

definition init_app :: app where
  "init_app =
     \<lparr>slots = validation_effect [] initial_state,
      hook = useDebounce_mount [] 300,
      effect_dep = [],
      inflight = []\<rparr>"

text \<open>
  The events: the user changes the text of the input (\<^verbatim>\<open>onChange\<close>, which a disabled
  control does not deliver), time passes, a submit event reaches the form
  (\<^verbatim>\<open>onSubmit\<close>), a request settles. A submit event is taken in any state: the handler
  does its own two checks and does not rely on the button being disabled.
\<close>

datatype event = Input jsstring | Elapse nat | Submit | Settle outcome

fun step :: "app \<Rightarrow> event \<Rightarrow> app" where
  "step w (Input v) =
     (if input_disabled (view_of w) then w
      else commit (w\<lparr>slots := (slots w)\<lparr>url := v\<rparr>\<rparr>))"
| "step w (Elapse n) = commit (w\<lparr>hook := advance n (hook w)\<rparr>)"
| "step w Submit =
     (let (s', fx) = handleSubmit_begin (debouncedUrl w) (slots w)
      in commit (w\<lparr>slots := s', inflight := inflight w @ fetches fx\<rparr>))"
| "step w (Settle out) =
     (case inflight w of
        [] \<Rightarrow> w
      | r # rs \<Rightarrow>
          commit (w\<lparr>slots := fst (handleSubmit_settle out (slots w)), inflight := rs\<rparr>))"

definition run :: "event list \<Rightarrow> app" where
  "run es = foldl step init_app es"

inductive reachable :: "app \<Rightarrow> bool" where
  start: "reachable init_app"
| after: "reachable w \<Longrightarrow> reachable (step w e)"

text \<open>
  What holds in every reachable state: the hook is mounted and was last called with the
  current \<^verbatim>\<open>url\<close> and the delay 300, and the validation effect has run for the current
  \<^verbatim>\<open>debouncedUrl\<close>.
\<close>

definition app_inv :: "app \<Rightarrow> bool" where
  "app_inv w \<longleftrightarrow>
     hook_inv (hook w) \<and> mounted (hook w)
     \<and> dep_value (hook w) = url (slots w) \<and> dep_delay (hook w) = 300
     \<and> effect_dep w = debouncedUrl w
     \<and> urlError (slots w) = urlError (validation_effect (debouncedUrl w) (slots w))"

text \<open>
  The same events when a submit event only ever comes from the submit button: a
  disabled button delivers none. The states reached in this way keep more: while the
  loading flag is set exactly one request is pending and the error and the summary are
  empty, and otherwise no request is pending and the error and the summary are not both
  non-empty.
\<close>

fun ui_step :: "app \<Rightarrow> event \<Rightarrow> app" where
  "ui_step w Submit = (if submit_disabled (view_of w) then w else step w Submit)"
| "ui_step w e = step w e"

definition ui_run :: "event list \<Rightarrow> app" where
  "ui_run es = foldl ui_step init_app es"

inductive ui_reachable :: "app \<Rightarrow> bool" where
  ui_start: "ui_reachable init_app"
| ui_after: "ui_reachable w \<Longrightarrow> ui_reachable (ui_step w e)"

definition ui_inv :: "app \<Rightarrow> bool" where
  "ui_inv w \<longleftrightarrow>
     app_inv w
     \<and> (isLoading (slots w) \<longrightarrow>
          error (slots w) = Str [] \<and> summary (slots w) = Str [] \<and> length (inflight w) = 1)
     \<and> (\<not> isLoading (slots w) \<longrightarrow>
          inflight w = [] \<and> \<not> (truthy (error (slots w)) \<and> truthy (summary (slots w))))"

text \<open>
  A component whose tree could not be committed is unmounted and takes no further
  event. \<open>ui_live\<close> are the states reached from the submit button while every tree on
  the way was committed; \<open>live_run\<close> follows a list of events in this way.
\<close>

inductive ui_live :: "(jsval \<Rightarrow> bool) \<Rightarrow> app \<Rightarrow> bool" where
  live_start: "ui_live md init_app"
| live_after: "ui_live md w \<Longrightarrow> displayed md (view_of w) = Some ps \<Longrightarrow>
     ui_live md (ui_step w e)"

fun live_run :: "(jsval \<Rightarrow> bool) \<Rightarrow> app \<Rightarrow> event list \<Rightarrow> app option" where
  "live_run md w [] = Some w"
| "live_run md w (e # es) =
     (case displayed md (view_of w) of
        None \<Rightarrow> None
      | Some ps \<Rightarrow> live_run md (ui_step w e) es)"

section \<open>Example inputs\<close>

text \<open>
  A video URL, the two response bodies \<^verbatim>\<open>{"success": true, "summary": "# Hi"}\<close> and
  \<^verbatim>\<open>{"success": false, "error": "boom"}\<close>, and a session: a URL is typed and, once
  debounced, submitted; the summary arrives; the input is emptied and, once that is
  debounced, a submit event reaches the form again.
\<close>

definition example_url :: jsstring where
  "example_url = ascii ''https://www.bilibili.com/video/BV1GJ411x7h7''"

definition ok_body :: jsval where
  "ok_body = Obj [(success_key, Bool True), (summary_key, Str (ascii ''# Hi''))]"

definition failed_body :: jsval where
  "failed_body = Obj [(success_key, Bool False), (error_key, Str (ascii ''boom''))]"

definition summarised :: "event list" where
  "summarised =
     [Input example_url, Elapse 300, Submit, Settle (Parsed ok_body), Input [], Elapse 300]"

definition resubmitted :: "event list" where
  "resubmitted = summarised @ [Submit]"

section \<open>Properties of the validator\<close>

lemma startsWith_iff_append: "startsWith s p \<longleftrightarrow> (\<exists>rest. s = p @ rest)"
proof (cases "length s < length p")
  case True
  then have "s \<noteq> p @ rest" for rest
    by auto
  with True show ?thesis
    by (auto simp: startsWith_def)
next
  case False
  have "take (length p) s = p \<longleftrightarrow> (\<exists>rest. s = p @ rest)"
  proof
    assume "take (length p) s = p"
    then have "s = p @ drop (length p) s"
      by (metis append_take_drop_id)
    then show "\<exists>rest. s = p @ rest" ..
  next
    assume "\<exists>rest. s = p @ rest"
    then show "take (length p) s = p"
      by auto
  qed
  with False show ?thesis
    by (auto simp: startsWith_def)
qed

text \<open>
  Claim C1. \<open>isValidBiliUrl u\<close> is true exactly when the string \<open>u\<close> is the literal
  \<^verbatim>\<open>https://www.bilibili.com/video\<close> followed by some suffix, that is, when the literal is
  a prefix of \<open>u\<close>: every string that does not start with the literal is rejected and
  every string made of the literal and a suffix is accepted.
\<close>

theorem isValidBiliUrl_iff_prefix:
  "(isValidBiliUrl u \<longleftrightarrow> (\<exists>rest. u = bili_prefix @ rest))
   \<and> (isValidBiliUrl u \<longleftrightarrow> prefix bili_prefix u)
   \<and> isValidBiliUrl (bili_prefix @ rest)"
  by (auto simp: isValidBiliUrl_def startsWith_iff_append prefix_def)

section \<open>Properties of the submission handler\<close>

lemma bili_prefix_nonempty: "bili_prefix \<noteq> []"
  by (simp add: bili_prefix_def ascii_def)

lemma isValidBiliUrl_empty: "\<not> isValidBiliUrl []"
  by (simp add: isValidBiliUrl_def startsWith_iff_append bili_prefix_nonempty)

lemma msgs_differ: "empty_msg \<noteq> invalid_msg"
  by (simp add: empty_msg_def invalid_msg_def ascii_def)

lemma urlError_msg_nonempty: "urlError_msg \<noteq> []"
  by (simp add: urlError_msg_def ascii_def)

lemma begin_empty:
  "handleSubmit_begin [] s = (s\<lparr>error := Str empty_msg\<rparr>, [PreventDefault])"
  by (simp add: handleSubmit_begin_def)

lemma begin_invalid:
  "d \<noteq> [] \<Longrightarrow> \<not> isValidBiliUrl d \<Longrightarrow>
   handleSubmit_begin d s = (s\<lparr>error := Str invalid_msg\<rparr>, [PreventDefault])"
  by (simp add: handleSubmit_begin_def)

lemma begin_valid:
  "d \<noteq> [] \<Longrightarrow> isValidBiliUrl d \<Longrightarrow>
   handleSubmit_begin d s =
     (s\<lparr>isLoading := True, error := Str [], summary := Str []\<rparr>,
      [PreventDefault, Fetch (summary_request d)])"
  by (simp add: handleSubmit_begin_def)

lemma handleSubmit_aborted:
  "d = [] \<or> \<not> isValidBiliUrl d \<Longrightarrow> handleSubmit d out s = handleSubmit_begin d s"
  by (auto simp: handleSubmit_def handleSubmit_begin_def)

lemma handleSubmit_valid:
  "d \<noteq> [] \<Longrightarrow> isValidBiliUrl d \<Longrightarrow>
   handleSubmit d out s =
     (fst (handleSubmit_settle out (s\<lparr>isLoading := True, error := Str [], summary := Str []\<rparr>)),
      [PreventDefault, Fetch (summary_request d)]
        @ snd (handleSubmit_settle out (s\<lparr>isLoading := True, error := Str [], summary := Str []\<rparr>)))"
  by (simp add: handleSubmit_def begin_valid split: prod.splits)

lemma settle_isLoading: "\<not> isLoading (fst (handleSubmit_settle out s))"
  by (simp add: handleSubmit_settle_def split: option.splits prod.splits)

lemma settle_fetches: "fetches (snd (handleSubmit_settle out s)) = []"
  by (simp add: handleSubmit_settle_def split: option.splits prod.splits)

lemma settle_thrown:
  "try_block out s = None \<Longrightarrow>
   handleSubmit_settle out s = (s\<lparr>error := Str net_msg, isLoading := False\<rparr>, [ConsoleError])"
  by (simp add: handleSubmit_settle_def)

lemma settle_returned:
  "try_block out s = Some s' \<Longrightarrow> handleSubmit_settle out s = (s'\<lparr>isLoading := False\<rparr>, [])"
  by (simp add: handleSubmit_settle_def)


text \<open>
  Claim C2. When the handler is invoked with an empty debounced URL, it sets the error
  to the empty-input message and returns: no request is issued and the loading flag is
  not set. When the debounced URL is non-empty and fails the validator, it sets the
  error to the invalid-format message and returns in the same way. The checks run in
  that order: the empty string fails the validator too, and gets the first message,
  which differs from the second.
\<close>

theorem handleSubmit_precondition_checks:
  "(d = [] \<longrightarrow>
      handleSubmit_begin d s = (s\<lparr>error := Str empty_msg\<rparr>, [PreventDefault])
      \<and> handleSubmit d out s = handleSubmit_begin d s
      \<and> fetches (snd (handleSubmit d out s)) = []
      \<and> isLoading (fst (handleSubmit d out s)) = isLoading s)
   \<and> (d \<noteq> [] \<and> \<not> isValidBiliUrl d \<longrightarrow>
      handleSubmit_begin d s = (s\<lparr>error := Str invalid_msg\<rparr>, [PreventDefault])
      \<and> handleSubmit d out s = handleSubmit_begin d s
      \<and> fetches (snd (handleSubmit d out s)) = []
      \<and> isLoading (fst (handleSubmit d out s)) = isLoading s)
   \<and> \<not> isValidBiliUrl [] \<and> empty_msg \<noteq> invalid_msg"
  by (simp add: handleSubmit_aborted begin_empty begin_invalid isValidBiliUrl_empty msgs_differ)

theorem handleSubmit_precondition_checks_witness:
  "handleSubmit [] (Parsed Null) initial_state
     = (initial_state\<lparr>error := Str empty_msg\<rparr>, [PreventDefault])
   \<and> fetches (snd (handleSubmit [] (Parsed Null) initial_state)) = []
   \<and> handleSubmit [0x78] (Parsed Null) initial_state
     = (initial_state\<lparr>error := Str invalid_msg\<rparr>, [PreventDefault])
   \<and> fetches (snd (handleSubmit [0x78] (Parsed Null) initial_state)) = []
   \<and> \<not> isLoading (fst (handleSubmit [0x78] (Parsed Null) initial_state))"
proof -
  have x: "\<not> isValidBiliUrl [0x78]"
    by (simp add: isValidBiliUrl_def startsWith_def bili_prefix_def ascii_def)
  show ?thesis
    using handleSubmit_precondition_checks [of "[]" initial_state "Parsed Null"]
      handleSubmit_precondition_checks [of "[0x78]" initial_state "Parsed Null"] x
    by (simp add: initial_state_def)
qed


lemma example_url_valid: "example_url \<noteq> []" "isValidBiliUrl example_url"
  by (simp_all add: example_url_def isValidBiliUrl_def startsWith_def bili_prefix_def ascii_def)



text \<open>
  Claim C4. In every run of the handler that passes both checks, the loading flag is
  set when the request is issued and is false once the handler has settled, whatever
  the outcome: a parsed body of any content, a rejected \<^verbatim>\<open>fetch\<close> or a rejected parse.
  The \<^verbatim>\<open>finally\<close> block clears the flag in whatever state the outcome arrives.
\<close>

theorem handleSubmit_clears_loading:
  assumes "d \<noteq> []" and "isValidBiliUrl d"
  shows "isLoading (fst (handleSubmit_begin d s))
         \<and> \<not> isLoading (fst (handleSubmit d out s))
         \<and> \<not> isLoading (fst (handleSubmit d FetchRejected s))
         \<and> \<not> isLoading (fst (handleSubmit d JsonRejected s))
         \<and> \<not> isLoading (fst (handleSubmit d (Parsed data) s))
         \<and> \<not> isLoading (fst (handleSubmit_settle out s'))"
  using assms by (simp add: begin_valid handleSubmit_valid settle_isLoading)

theorem handleSubmit_clears_loading_witness:
  "isLoading (fst (handleSubmit_begin example_url initial_state))
   \<and> \<not> isLoading (fst (handleSubmit example_url (Parsed ok_body) initial_state))
   \<and> \<not> isLoading (fst (handleSubmit example_url (Parsed failed_body) initial_state))
   \<and> \<not> isLoading (fst (handleSubmit example_url FetchRejected initial_state))
   \<and> \<not> isLoading (fst (handleSubmit example_url JsonRejected initial_state))"
  using handleSubmit_clears_loading [OF example_url_valid, of initial_state _ ok_body]
    handleSubmit_clears_loading [OF example_url_valid, of initial_state _ failed_body]
  by simp

text \<open>
  Claim C7. When the handler is invoked with a debounced URL that is non-empty and
  passes the validator, it clears the error and the summary, sets the loading flag, and
  issues one request: \<^verbatim>\<open>POST /api/summary_bili\<close> with the header
  \<^verbatim>\<open>Content-Type: application/json\<close> and the body \<^verbatim>\<open>JSON.stringify({ url: debouncedUrl })\<close>.
  The whole run issues that request and no other.
\<close>

theorem handleSubmit_issues_request:
  assumes "d \<noteq> []" and "isValidBiliUrl d"
  shows "handleSubmit_begin d s =
           (s\<lparr>isLoading := True, error := Str [], summary := Str []\<rparr>,
            [PreventDefault,
             Fetch \<lparr>path = ascii ''/api/summary_bili'',
                    http_method = ascii ''POST'',
                    headers = [(ascii ''Content-Type'', ascii ''application/json'')],
                    body = JSON_stringify (Obj [(ascii ''url'', Str d)])\<rparr>])
         \<and> fetches (snd (handleSubmit d out s)) = [summary_request d]"
  using assms by (simp add: begin_valid handleSubmit_valid settle_fetches summary_request_def)

theorem handleSubmit_issues_request_witness:
  "fst (handleSubmit_begin example_url initial_state) = initial_state\<lparr>isLoading := True\<rparr>
   \<and> fetches (snd (handleSubmit_begin example_url initial_state))
     = [summary_request example_url]
   \<and> fetches (snd (handleSubmit example_url (Parsed ok_body) initial_state))
     = [summary_request example_url]"
  using handleSubmit_issues_request [OF example_url_valid, of initial_state "Parsed ok_body"]
  by (simp add: initial_state_def summary_request_def)

section \<open>Properties of the debounce hook\<close>

lemma useDebounce_same:
  "v = dep_value h \<Longrightarrow> d = dep_delay h \<Longrightarrow> useDebounce v d h = h"
  by (simp add: useDebounce_def)

lemma cleanup_timers:
  "hook_inv h \<Longrightarrow> timers (effect_cleanup h) = []"
  by (auto simp: hook_inv_def effect_cleanup_def clearTimeout_def)

lemma useDebounce_changed:
  assumes "hook_inv h" and "v \<noteq> dep_value h \<or> d \<noteq> dep_delay h"
  shows "useDebounce v d h =
           h\<lparr>next_id := Suc (next_id h), timers := [(next_id h, clock h + d, v)],
             handler := next_id h, dep_value := v, dep_delay := d\<rparr>"
  using assms
  by (auto simp: useDebounce_def effect_body_def setTimeout_def effect_cleanup_def
      clearTimeout_def hook_inv_def)

lemma hook_inv_mount: "hook_inv (useDebounce_mount v d)"
  by (simp add: useDebounce_mount_def effect_body_def setTimeout_def hook_inv_def)

lemma hook_inv_useDebounce:
  assumes "hook_inv h"
  shows "hook_inv (useDebounce v d h)"
proof (cases "v \<noteq> dep_value h \<or> d \<noteq> dep_delay h")
  case True
  then show ?thesis
    by (simp add: useDebounce_changed [OF assms] hook_inv_def)
next
  case False
  with assms show ?thesis
    by (simp add: useDebounce_same)
qed

lemma advance_idle:
  "timers h = [] \<Longrightarrow> advance n h = h\<lparr>clock := clock h + n\<rparr>"
  by (simp add: advance_def)

lemma advance_pending:
  "timers h = [(i, due, v)] \<Longrightarrow> \<not> due \<le> clock h + n \<Longrightarrow>
   advance n h = h\<lparr>clock := clock h + n\<rparr>"
  by (simp add: advance_def)

lemma advance_due:
  "timers h = [(i, due, v)] \<Longrightarrow> due \<le> clock h + n \<Longrightarrow>
   advance n h =
     (if mounted h then h\<lparr>clock := clock h + n, timers := [], debouncedValue := v\<rparr>
      else h\<lparr>clock := clock h + n, timers := []\<rparr>)"
  by (simp add: advance_def fire_def)

lemma hook_inv_advance:
  assumes "hook_inv h"
  shows "hook_inv (advance n h)"
proof -
  from assms consider "timers h = []"
    | due where "timers h = [(handler h, due, dep_value h)]"
    by (auto simp: hook_inv_def)
  then show ?thesis
  proof cases
    case 1
    with assms show ?thesis
      by (simp add: advance_idle hook_inv_def)
  next
    case 2
    with assms show ?thesis
      by (cases "due \<le> clock h + n")
         (simp_all add: advance_due advance_pending hook_inv_def)
  qed
qed

lemma advance_keeps:
  assumes "hook_inv h"
  shows "dep_value (advance n h) = dep_value h" and "dep_delay (advance n h) = dep_delay h"
    and "mounted (advance n h) = mounted h" and "handler (advance n h) = handler h"
    and "next_id (advance n h) = next_id h" and "clock (advance n h) = clock h + n"
    and "debouncedValue (advance n h) = debouncedValue h
         \<or> debouncedValue (advance n h) = dep_value h"
proof -
  from assms consider "timers h = []"
    | due where "timers h = [(handler h, due, dep_value h)]"
    by (auto simp: hook_inv_def)
  then have "dep_value (advance n h) = dep_value h \<and> dep_delay (advance n h) = dep_delay h
    \<and> mounted (advance n h) = mounted h \<and> handler (advance n h) = handler h
    \<and> next_id (advance n h) = next_id h \<and> clock (advance n h) = clock h + n
    \<and> (debouncedValue (advance n h) = debouncedValue h
         \<or> debouncedValue (advance n h) = dep_value h)"
  proof cases
    case 1
    then show ?thesis
      by (simp add: advance_idle)
  next
    case 2
    then show ?thesis
      by (cases "due \<le> clock h + n") (simp_all add: advance_due advance_pending)
  qed
  then show "dep_value (advance n h) = dep_value h" and "dep_delay (advance n h) = dep_delay h"
    and "mounted (advance n h) = mounted h" and "handler (advance n h) = handler h"
    and "next_id (advance n h) = next_id h" and "clock (advance n h) = clock h + n"
    and "debouncedValue (advance n h) = debouncedValue h
         \<or> debouncedValue (advance n h) = dep_value h"
    by simp_all
qed

lemma armed_inv: "armed h d v \<Longrightarrow> hook_inv h"
  by (auto simp: armed_def hook_inv_def)

lemma armed_useDebounce:
  assumes "hook_inv h" and "mounted h" and "v \<noteq> dep_value h"
  shows "armed (useDebounce v d h) d v"
    and "debouncedValue (useDebounce v d h) = debouncedValue h"
    and "handler h \<notin> fst ` set (timers (useDebounce v d h))"
  using assms(2,3) useDebounce_changed [OF assms(1), of v d] assms(1)
  by (simp_all add: armed_def hook_inv_def)

lemma armed_wait:
  assumes "armed h d v" and "e < d"
  shows "advance e h = h\<lparr>clock := clock h + e\<rparr>"
  using assms by (simp add: armed_def advance_pending)

lemma armed_fires:
  assumes "armed h d v" and "d \<le> e"
  shows "debouncedValue (advance e h) = v"
  using assms by (simp add: armed_def advance_due)

lemma armed_next:
  assumes "armed h d u" and "gap < d" and "v \<noteq> u"
  shows "armed (useDebounce v d (advance gap h)) d v"
    and "debouncedValue (useDebounce v d (advance gap h)) = debouncedValue h"
    and "handler h \<notin> fst ` set (timers (useDebounce v d (advance gap h)))"
proof -
  let ?g = "advance gap h"
  have g: "?g = h\<lparr>clock := clock h + gap\<rparr>"
    using assms(1,2) by (rule armed_wait)
  have inv: "hook_inv ?g" and m: "mounted ?g" and dv: "v \<noteq> dep_value ?g"
    and hd: "handler ?g = handler h" and dbv: "debouncedValue ?g = debouncedValue h"
    using assms by (simp_all add: g armed_def hook_inv_def)
  show "armed (useDebounce v d ?g) d v"
    using inv m dv by (rule armed_useDebounce)
  show "debouncedValue (useDebounce v d ?g) = debouncedValue h"
    using armed_useDebounce(2) [OF inv m dv] dbv by simp
  show "handler h \<notin> fst ` set (timers (useDebounce v d ?g))"
    using armed_useDebounce(3) [OF inv m dv] hd by simp
qed

lemma changes_rapid:
  assumes "armed h d u" and "rapid d u cs"
  shows "armed (changes h cs) d (last (u # map snd cs))
         \<and> debouncedValue (changes h cs) = debouncedValue h"
  using assms
proof (induction cs arbitrary: h u)
  case Nil
  then show ?case by simp
next
  case (Cons c cs)
  obtain gap v where c: "c = (gap, v)"
    by (cases c)
  from Cons.prems have gap: "gap < d" and v: "v \<noteq> u" and rest: "rapid d v cs"
    by (simp_all add: c)
  have d: "dep_delay h = d"
    using Cons.prems(1) by (simp add: armed_def)
  let ?h' = "useDebounce v d (advance gap h)"
  have a: "armed ?h' d v" and b: "debouncedValue ?h' = debouncedValue h"
    using armed_next [OF Cons.prems(1) gap v] by simp_all
  from Cons.IH [OF a rest] b show ?case
    by (simp add: c d)
qed

lemma rapid_take: "rapid d u cs \<Longrightarrow> rapid d u (take k cs)"
proof (induction cs arbitrary: u k)
  case Nil
  then show ?case by simp
next
  case (Cons c cs)
  then show ?case
    by (cases k; cases c) simp_all
qed

lemma unmount_cancels:
  assumes "hook_inv h"
  shows "timers (unmount h) = []" and "debouncedValue (advance e (unmount h)) = debouncedValue h"
proof -
  show t: "timers (unmount h) = []"
    using assms by (simp add: unmount_def cleanup_timers)
  show "debouncedValue (advance e (unmount h)) = debouncedValue h"
    by (simp add: advance_idle [OF t]) (simp add: unmount_def effect_cleanup_def clearTimeout_def)
qed


lemma changes_append: "changes h (xs @ ys) = changes (changes h xs) ys"
  by (induction xs arbitrary: h) auto

lemma rapid_append:
  "rapid d u (xs @ ys) \<longleftrightarrow> rapid d u xs \<and> rapid d (last (u # map snd xs)) ys"
  by (induction xs arbitrary: u) auto

text \<open>
  Claim C8. Take a mounted instance of the hook and a run of changes of its value: a
  first change to \<open>v\<close>, then the changes \<open>cs\<close>, each to a value other than the one
  before it and less than the delay after the change before it. At every moment of the
  run, and until the delay has passed after the last change, the debounced value is
  what it was before the run: no intermediate value is adopted. Once the delay has passed after the last change, the debounced value is the
  last value. Every change cancels the timer of the change before it, and unmounting at
  any point of the run leaves no timer pending, so that the debounced value never
  changes afterwards. The component uses the delay 300.
\<close>

theorem debounce_adopts_only_final:
  assumes "hook_inv h" and "mounted h" and "v \<noteq> dep_value h"
    and "rapid (dep_delay h) v cs"
  shows
    "(\<forall>k e. e < dep_delay h \<longrightarrow>
        debouncedValue (advance e (changes (useDebounce v (dep_delay h) h) (take k cs)))
          = debouncedValue h)
     \<and> (\<forall>e. dep_delay h \<le> e \<longrightarrow>
        debouncedValue (advance e (changes (useDebounce v (dep_delay h) h) cs))
          = last (v # map snd cs))
     \<and> handler h \<notin> fst ` set (timers (useDebounce v (dep_delay h) h))
     \<and> (\<forall>k. k < length cs \<longrightarrow>
        handler (changes (useDebounce v (dep_delay h) h) (take k cs))
          \<notin> fst ` set (timers (changes (useDebounce v (dep_delay h) h) (take (Suc k) cs))))
     \<and> (\<forall>k e. timers (unmount (changes (useDebounce v (dep_delay h) h) (take k cs))) = []
        \<and> debouncedValue
            (advance e (unmount (changes (useDebounce v (dep_delay h) h) (take k cs))))
          = debouncedValue h)"
proof -
  let ?d = "dep_delay h"
  let ?h1 = "useDebounce v ?d h"
  have h1: "armed ?h1 ?d v" and dv1: "debouncedValue ?h1 = debouncedValue h"
    and c1: "handler h \<notin> fst ` set (timers ?h1)"
    using armed_useDebounce [OF assms(1-3)] by simp_all
  have at: "armed (changes ?h1 (take k cs)) ?d (last (v # map snd (take k cs)))
            \<and> debouncedValue (changes ?h1 (take k cs)) = debouncedValue h" for k
    using changes_rapid [OF h1 rapid_take [OF assms(4)], of k] dv1 by simp
  have during: "debouncedValue (advance e (changes ?h1 (take k cs))) = debouncedValue h"
    if "e < ?d" for k e
    using at [of k] armed_wait [OF _ that, of "changes ?h1 (take k cs)"] by auto
  have final: "debouncedValue (advance e (changes ?h1 cs)) = last (v # map snd cs)"
    if "?d \<le> e" for e
    using at [of "length cs"] armed_fires [OF _ that, of "changes ?h1 cs"] by auto
  have cancel: "handler (changes ?h1 (take k cs))
                  \<notin> fst ` set (timers (changes ?h1 (take (Suc k) cs)))"
    if "k < length cs" for k
  proof -
    obtain gap w where c: "cs ! k = (gap, w)"
      by (cases "cs ! k")
    let ?u = "last (v # map snd (take k cs))"
    have cs: "cs = take k cs @ (gap, w) # drop (Suc k) cs"
      using id_take_nth_drop [OF that] c by simp
    have "rapid ?d ?u ((gap, w) # drop (Suc k) cs)"
      using assms(4) rapid_append [of ?d v "take k cs" "(gap, w) # drop (Suc k) cs"] cs
      by simp
    then have gap: "gap < ?d" and w: "w \<noteq> ?u"
      by simp_all
    have a: "armed (changes ?h1 (take k cs)) ?d ?u"
      using at [of k] by simp
    have "take (Suc k) cs = take k cs @ [(gap, w)]"
      using that c by (simp add: take_Suc_conv_app_nth)
    then have "changes ?h1 (take (Suc k) cs)
                 = useDebounce w ?d (advance gap (changes ?h1 (take k cs)))"
      using a by (simp add: changes_append armed_def)
    with armed_next(3) [OF a gap w] show ?thesis
      by simp
  qed
  have torn: "timers (unmount (changes ?h1 (take k cs))) = []
              \<and> debouncedValue (advance e (unmount (changes ?h1 (take k cs))))
                  = debouncedValue h" for k e
    using at [of k] unmount_cancels [OF armed_inv, of "changes ?h1 (take k cs)"] by auto
  show ?thesis
    using during final c1 cancel torn by blast
qed

theorem debounce_adopts_only_final_witness:
  "debouncedValue
     (advance 299 (changes (useDebounce [0x61] 300 (useDebounce_mount [] 300))
        [(100, [0x61, 0x62]), (299, [0x61, 0x62, 0x63])])) = ([] :: jsstring)
   \<and> debouncedValue
     (advance 300 (changes (useDebounce [0x61] 300 (useDebounce_mount [] 300))
        [(100, [0x61, 0x62]), (299, [0x61, 0x62, 0x63])])) = ([0x61, 0x62, 0x63] :: jsstring)
   \<and> timers
     (unmount (changes (useDebounce [0x61] 300 (useDebounce_mount [] 300))
        [(100, [0x61, 0x62 :: 16 word]), (299, [0x61, 0x62, 0x63])])) = []"
proof -
  let ?h = "useDebounce_mount ([] :: jsstring) 300"
  let ?cs = "[(100, [0x61, 0x62]), (299, [0x61, 0x62, 0x63])] :: (nat \<times> jsstring) list"
  have d: "dep_delay ?h = 300" and v: "dep_value ?h = []" and dv: "debouncedValue ?h = []"
    and m: "mounted ?h"
    by (simp_all add: useDebounce_mount_def effect_body_def setTimeout_def)
  have r: "rapid (dep_delay ?h) [0x61] ?cs"
    by (simp add: d)
  have n: "[0x61] \<noteq> dep_value ?h"
    by (simp add: v)
  note t = debounce_adopts_only_final [OF hook_inv_mount m n r, unfolded d]
  from t have "debouncedValue (advance 299 (changes (useDebounce [0x61] 300 ?h) (take 2 ?cs)))
                 = debouncedValue ?h"
    by (elim conjE allE [of _ 2] allE [of _ "299 :: nat"]) simp
  moreover from t have "debouncedValue (advance 300 (changes (useDebounce [0x61] 300 ?h) ?cs))
                          = last ([0x61] # map snd ?cs)"
    by (elim conjE allE [of _ "300 :: nat"]) simp
  moreover from t have "timers (unmount (changes (useDebounce [0x61] 300 ?h) (take 2 ?cs))) = []"
    by (elim conjE allE [of _ 2]) simp
  ultimately show ?thesis
    by (simp add: dv)
qed

section \<open>Properties of the transition system\<close>

lemma useDebounce_keeps:
  "debouncedValue (useDebounce v d h) = debouncedValue h"
  "mounted (useDebounce v d h) = mounted h"
  "dep_value (useDebounce v d h) = v"
  "dep_delay (useDebounce v d h) = d"
  by (auto simp: useDebounce_def effect_body_def setTimeout_def effect_cleanup_def
      clearTimeout_def)

lemma begin_keeps:
  "url (fst (handleSubmit_begin d s)) = url s"
  "urlError (fst (handleSubmit_begin d s)) = urlError s"
  by (simp_all add: handleSubmit_begin_def)

lemma try_block_keeps:
  "try_block out s = Some s' \<Longrightarrow> url s' = url s \<and> urlError s' = urlError s"
  by (auto simp: try_block_def split: outcome.splits option.splits if_splits)

lemma settle_keeps:
  "url (fst (handleSubmit_settle out s)) = url s"
  "urlError (fst (handleSubmit_settle out s)) = urlError s"
  by (auto simp: handleSubmit_settle_def dest: try_block_keeps split: option.splits)

lemma validation_effect_urlError:
  "urlError (validation_effect d s) = urlError (validation_effect d s')"
  "url (validation_effect d s) = url s"
  by (simp_all add: validation_effect_def)

lemma commit_settled:
  assumes "dep_value (hook w) = url (slots w)" and "dep_delay (hook w) = 300"
    and "effect_dep w = debouncedUrl w"
  shows "commit w = w"
  using assms by (simp add: commit_def useDebounce_same debouncedUrl_def)

lemma app_inv_init: "app_inv init_app"
  by (simp add: app_inv_def init_app_def hook_inv_mount debouncedUrl_def)
     (simp add: useDebounce_mount_def effect_body_def setTimeout_def validation_effect_def
        initial_state_def)

lemma step_Input:
  assumes "app_inv w" and "\<not> isLoading (slots w)"
  shows "step w (Input v) =
           w\<lparr>slots := (slots w)\<lparr>url := v\<rparr>, hook := useDebounce v 300 (hook w)\<rparr>"
  using assms
  by (simp add: view_of_def render_def commit_def useDebounce_keeps app_inv_def
      debouncedUrl_def)

lemma step_Elapse:
  assumes "app_inv w"
  shows "step w (Elapse n) =
           w\<lparr>hook := advance n (hook w),
             slots := (if debouncedValue (advance n (hook w)) = debouncedUrl w then slots w
                       else validation_effect (debouncedValue (advance n (hook w))) (slots w)),
             effect_dep := debouncedValue (advance n (hook w))\<rparr>"
proof -
  have "useDebounce (url (slots w)) 300 (advance n (hook w)) = advance n (hook w)"
    using assms by (intro useDebounce_same) (simp_all add: app_inv_def advance_keeps)
  with assms show ?thesis
    by (simp add: commit_def app_inv_def Let_def)
qed

lemma step_Submit:
  assumes "app_inv w"
  shows "step w Submit =
           w\<lparr>slots := fst (handleSubmit_begin (debouncedUrl w) (slots w)),
             inflight := inflight w @ fetches (snd (handleSubmit_begin (debouncedUrl w) (slots w)))\<rparr>"
proof -
  let ?w' = "w\<lparr>slots := fst (handleSubmit_begin (debouncedUrl w) (slots w)),
               inflight := inflight w @ fetches (snd (handleSubmit_begin (debouncedUrl w) (slots w)))\<rparr>"
  have "commit ?w' = ?w'"
    using assms by (intro commit_settled) (simp_all add: app_inv_def debouncedUrl_def begin_keeps)
  then show ?thesis
    by (simp add: split_beta)
qed

lemma step_Settle:
  assumes "app_inv w" and "inflight w = r # rs"
  shows "step w (Settle out) =
           w\<lparr>slots := fst (handleSubmit_settle out (slots w)), inflight := rs\<rparr>"
proof -
  let ?w' = "w\<lparr>slots := fst (handleSubmit_settle out (slots w)), inflight := rs\<rparr>"
  have "commit ?w' = ?w'"
    using assms by (intro commit_settled) (simp_all add: app_inv_def debouncedUrl_def settle_keeps)
  with assms(2) show ?thesis
    by simp
qed

lemma app_inv_step:
  assumes "app_inv w"
  shows "app_inv (step w e)"
proof (cases e)
  case (Input v)
  show ?thesis
  proof (cases "isLoading (slots w)")
    case True
    with assms Input show ?thesis
      by (simp add: view_of_def render_def)
  next
    case False
    with assms show ?thesis
      unfolding Input step_Input [OF assms False]
      by (simp add: app_inv_def hook_inv_useDebounce useDebounce_keeps debouncedUrl_def
          validation_effect_def)
  qed
next
  case (Elapse n)
  have h: "hook_inv (hook w)"
    using assms by (simp add: app_inv_def)
  show ?thesis
    unfolding Elapse step_Elapse [OF assms] using assms
    by (simp add: app_inv_def hook_inv_advance advance_keeps [OF h] debouncedUrl_def
        validation_effect_def)
next
  case Submit
  show ?thesis
    unfolding Submit step_Submit [OF assms] using assms
    by (simp add: app_inv_def debouncedUrl_def begin_keeps validation_effect_def)
next
  case (Settle out)
  show ?thesis
  proof (cases "inflight w")
    case Nil
    with assms Settle show ?thesis by simp
  next
    case (Cons r rs)
    show ?thesis
      unfolding Settle step_Settle [OF assms Cons] using assms
      by (simp add: app_inv_def debouncedUrl_def settle_keeps validation_effect_def)
  qed
qed

lemma reachable_inv: "reachable w \<Longrightarrow> app_inv w"
  by (induction rule: reachable.induct) (simp_all add: app_inv_init app_inv_step)

lemma reachable_foldl: "reachable w \<Longrightarrow> reachable (foldl step w es)"
  by (induction es arbitrary: w) (simp_all add: reachable.after)

lemma reachable_run: "reachable (run es)"
  by (simp add: run_def reachable_foldl reachable.start)

lemma ui_inv_init: "ui_inv init_app"
  by (simp add: ui_inv_def app_inv_init) (simp add: init_app_def validation_effect_def initial_state_def)

lemma validation_effect_keeps:
  "isLoading (validation_effect d s) = isLoading s"
  "error (validation_effect d s) = error s"
  "summary (validation_effect d s) = summary s"
  by (simp_all add: validation_effect_def)

lemma enabled_passes:
  assumes "app_inv w" and "\<not> submit_disabled (view_of w)"
  shows "debouncedUrl w \<noteq> []" and "isValidBiliUrl (debouncedUrl w)" and "\<not> isLoading (slots w)"
proof -
  from assms(2) have l: "\<not> isLoading (slots w)" and d: "debouncedUrl w \<noteq> []"
    and u: "urlError (slots w) = []"
    by (simp_all add: view_of_def render_def)
  show "debouncedUrl w \<noteq> []" by (rule d)
  show "\<not> isLoading (slots w)" by (rule l)
  show "isValidBiliUrl (debouncedUrl w)"
  proof (rule ccontr)
    assume "\<not> isValidBiliUrl (debouncedUrl w)"
    with assms(1) d have "urlError (slots w) = urlError_msg"
      by (simp add: app_inv_def validation_effect_def)
    with u show False
      by (simp add: urlError_msg_nonempty)
  qed
qed

lemma settle_from_cleared:
  assumes "error s = Str []" and "summary s = Str []"
  shows "\<not> (truthy (error (fst (handleSubmit_settle out s)))
            \<and> truthy (summary (fst (handleSubmit_settle out s))))"
proof (cases "try_block out s")
  case None
  with assms show ?thesis
    by (simp add: settle_thrown)
next
  case (Some s')
  then have "error s' = error s \<or> summary s' = summary s"
    by (auto simp: try_block_def split: outcome.splits option.splits if_splits)
  with assms Some show ?thesis
    by (auto simp: settle_returned)
qed

lemma ui_inv_step:
  assumes "ui_inv w" and "e = Submit \<longrightarrow> \<not> submit_disabled (view_of w)"
  shows "ui_inv (step w e)"
proof -
  have inv: "app_inv w"
    using assms(1) by (simp add: ui_inv_def)
  have inv': "app_inv (step w e)"
    using inv by (rule app_inv_step)
  show ?thesis
  proof (cases e)
    case (Input v)
    show ?thesis
    proof (cases "isLoading (slots w)")
      case True
      with assms(1) Input show ?thesis
        by (simp add: view_of_def render_def)
    next
      case False
      have "step w e = w\<lparr>slots := (slots w)\<lparr>url := v\<rparr>, hook := useDebounce v 300 (hook w)\<rparr>"
        unfolding Input using inv False by (rule step_Input)
      with assms(1) inv' False show ?thesis
        by (simp add: ui_inv_def)
    qed
  next
    case (Elapse n)
    from assms(1) inv' show ?thesis
      unfolding Elapse step_Elapse [OF inv]
      by (simp add: ui_inv_def validation_effect_keeps)
  next
    case Submit
    with assms(2) have en: "\<not> submit_disabled (view_of w)"
      by simp
    note p = enabled_passes [OF inv en]
    from assms(1) p(3) have "inflight w = []"
      by (simp add: ui_inv_def)
    with inv' show ?thesis
      unfolding Submit step_Submit [OF inv]
      by (simp add: ui_inv_def begin_valid [OF p(1,2)])
  next
    case (Settle out)
    show ?thesis
    proof (cases "inflight w")
      case Nil
      with assms(1) Settle show ?thesis
        by simp
    next
      case (Cons r rs)
      with assms(1) have l: "isLoading (slots w)"
        by (auto simp: ui_inv_def)
      with assms(1) Cons have c: "error (slots w) = Str []" "summary (slots w) = Str []"
        and rs: "rs = []"
        by (simp_all add: ui_inv_def)
      from inv' settle_from_cleared [OF c, of out] rs show ?thesis
        unfolding Settle step_Settle [OF inv Cons]
        by (simp add: ui_inv_def settle_isLoading)
    qed
  qed
qed

lemma ui_inv_ui_step:
  assumes "ui_inv w"
  shows "ui_inv (ui_step w e)"
proof (cases "e = Submit \<and> submit_disabled (view_of w)")
  case True
  with assms show ?thesis
    by simp
next
  case False
  then have "ui_step w e = step w e"
    by (cases e) simp_all
  with False ui_inv_step [OF assms, of e] show ?thesis
    by auto
qed

lemma ui_reachable_inv: "ui_reachable w \<Longrightarrow> ui_inv w"
  by (induction rule: ui_reachable.induct) (simp_all add: ui_inv_init ui_inv_ui_step)

lemma ui_reachable_foldl: "ui_reachable w \<Longrightarrow> ui_reachable (foldl ui_step w es)"
  by (induction es arbitrary: w) (simp_all add: ui_reachable.ui_after)

lemma ui_reachable_ui_run: "ui_reachable (ui_run es)"
  by (simp add: ui_run_def ui_reachable_foldl ui_reachable.ui_start)

lemma loading_stable:
  assumes "app_inv w" and "isLoading (slots w)" and "\<And>out. e \<noteq> Settle out"
  shows "isLoading (slots (step w e))"
proof (cases e)
  case (Input v)
  with assms(2) show ?thesis
    by (simp add: view_of_def render_def)
next
  case (Elapse n)
  from assms(2) show ?thesis
    unfolding Elapse step_Elapse [OF assms(1)] by (simp add: validation_effect_keeps)
next
  case Submit
  from assms(2) show ?thesis
    unfolding Submit step_Submit [OF assms(1)] by (simp add: handleSubmit_begin_def)
next
  case (Settle out)
  with assms(3) [of out] show ?thesis
    by simp
qed

text \<open>
  Claim C6. The validation effect leaves a non-empty validation error exactly when the
  debounced URL is non-empty and fails the validator: it clears the error for the empty
  string, sets the fixed, non-empty message for a non-empty string that fails the
  validator, and clears the error for a string that passes. The effect runs when the
  debounced URL changes, so in every reachable state the validation error is non-empty
  exactly when the debounced URL is non-empty and fails the validator.
\<close>

theorem validation_error_iff:
  "(urlError (validation_effect d s) \<noteq> [] \<longleftrightarrow> d \<noteq> [] \<and> \<not> isValidBiliUrl d)
   \<and> (d = [] \<longrightarrow> validation_effect d s = s\<lparr>urlError := []\<rparr>)
   \<and> (d \<noteq> [] \<and> \<not> isValidBiliUrl d \<longrightarrow> validation_effect d s = s\<lparr>urlError := urlError_msg\<rparr>)
   \<and> (d \<noteq> [] \<and> isValidBiliUrl d \<longrightarrow> validation_effect d s = s\<lparr>urlError := []\<rparr>)
   \<and> urlError_msg \<noteq> []
   \<and> (reachable w \<longrightarrow>
        slots (step w (Elapse n))
          = (if debouncedUrl (step w (Elapse n)) = debouncedUrl w then slots w
             else validation_effect (debouncedUrl (step w (Elapse n))) (slots w)))
   \<and> (reachable w \<longrightarrow>
        (urlError (slots w) \<noteq> [] \<longleftrightarrow>
           debouncedUrl w \<noteq> [] \<and> \<not> isValidBiliUrl (debouncedUrl w)))"
proof -
  have a: "slots (step w (Elapse n))
             = (if debouncedUrl (step w (Elapse n)) = debouncedUrl w then slots w
                else validation_effect (debouncedUrl (step w (Elapse n))) (slots w))"
    if "reachable w"
    by (simp add: step_Elapse [OF reachable_inv [OF that]] debouncedUrl_def del: step.simps)
  have b: "urlError (slots w) \<noteq> [] \<longleftrightarrow>
             debouncedUrl w \<noteq> [] \<and> \<not> isValidBiliUrl (debouncedUrl w)"
    if "reachable w"
    using reachable_inv [OF that]
    by (simp add: app_inv_def validation_effect_def urlError_msg_nonempty)
  show ?thesis
    using a b by (simp add: validation_effect_def urlError_msg_nonempty)
qed

theorem validation_error_iff_witness:
  "validation_effect [] initial_state = initial_state
   \<and> validation_effect [0x78] initial_state = initial_state\<lparr>urlError := urlError_msg\<rparr>
   \<and> validation_effect example_url (initial_state\<lparr>urlError := urlError_msg\<rparr>) = initial_state
   \<and> urlError (slots (run [Input [0x78], Elapse 300])) \<noteq> []
   \<and> urlError (slots (run [Input example_url, Elapse 300])) = []"
proof -
  have x: "\<not> isValidBiliUrl [0x78]"
    by (simp add: isValidBiliUrl_def startsWith_def bili_prefix_def ascii_def)
  have d1: "debouncedUrl (run [Input [0x78], Elapse 300]) = [0x78]"
    by code_simp
  have d2: "debouncedUrl (run [Input example_url, Elapse 300]) = example_url"
    by code_simp
  have "validation_effect [] initial_state = initial_state"
    using validation_error_iff [of "[]" initial_state] by (simp add: initial_state_def)
  moreover have "validation_effect [0x78] initial_state
                   = initial_state\<lparr>urlError := urlError_msg\<rparr>"
    using validation_error_iff [of "[0x78]" initial_state] x by simp
  moreover have "validation_effect example_url (initial_state\<lparr>urlError := urlError_msg\<rparr>)
                   = initial_state"
    using validation_error_iff [of example_url "initial_state\<lparr>urlError := urlError_msg\<rparr>"]
      example_url_valid
    by (simp add: initial_state_def)
  moreover have "urlError (slots (run [Input [0x78], Elapse 300])) \<noteq> []"
    using validation_error_iff [of _ _ "run [Input [0x78], Elapse 300]"] reachable_run x
    by (simp add: d1)
  moreover have "urlError (slots (run [Input example_url, Elapse 300])) = []"
    using validation_error_iff [of _ _ "run [Input example_url, Elapse 300]"] reachable_run
      example_url_valid
    by (simp add: d2)
  ultimately show ?thesis
    by simp
qed

text \<open>
  Claim C10. A run of the handler that aborts at one of the two checks changes the
  error and nothing else: the loading flag, the summary, the input URL and the
  validation error are what they were, so a summary that was non-empty stays non-empty.
  In a reachable state of the component nothing but the error changes at such a submit
  event: the debounced URL, the timer and the pending requests stay as well.
\<close>

theorem aborted_submission_frame:
  assumes "d = [] \<or> \<not> isValidBiliUrl d"
  shows
    "fst (handleSubmit d out s) = s\<lparr>error := Str (if d = [] then empty_msg else invalid_msg)\<rparr>
     \<and> isLoading (fst (handleSubmit d out s)) = isLoading s
     \<and> summary (fst (handleSubmit d out s)) = summary s
     \<and> url (fst (handleSubmit d out s)) = url s
     \<and> urlError (fst (handleSubmit d out s)) = urlError s
     \<and> (truthy (summary s) \<longrightarrow> truthy (summary (fst (handleSubmit d out s))))
     \<and> (reachable w \<and> debouncedUrl w = d \<longrightarrow>
          step w Submit
            = w\<lparr>slots := (slots w)\<lparr>error := Str (if d = [] then empty_msg else invalid_msg)\<rparr>\<rparr>)"
proof -
  have b: "handleSubmit_begin d t
             = (t\<lparr>error := Str (if d = [] then empty_msg else invalid_msg)\<rparr>, [PreventDefault])"
    for t
    using assms by (cases "d = []") (simp_all add: begin_empty begin_invalid)
  have "step w Submit
          = w\<lparr>slots := (slots w)\<lparr>error := Str (if d = [] then empty_msg else invalid_msg)\<rparr>\<rparr>"
    if "reachable w" and "debouncedUrl w = d"
    using step_Submit [OF reachable_inv [OF that(1)]] that(2) by (simp add: b)
  then show ?thesis
    using assms by (simp add: handleSubmit_aborted b)
qed

theorem aborted_submission_frame_witness:
  "fst (handleSubmit [] FetchRejected (initial_state\<lparr>summary := Str (ascii ''# Hi'')\<rparr>))
     = initial_state\<lparr>summary := Str (ascii ''# Hi''), error := Str empty_msg\<rparr>
   \<and> truthy (summary
       (fst (handleSubmit [] FetchRejected (initial_state\<lparr>summary := Str (ascii ''# Hi'')\<rparr>))))
   \<and> step (run summarised) Submit
     = (run summarised)\<lparr>slots := (slots (run summarised))\<lparr>error := Str empty_msg\<rparr>\<rparr>"
proof -
  have d: "debouncedUrl (run summarised) = []"
    by code_simp
  have "step (run summarised) Submit
          = (run summarised)\<lparr>slots := (slots (run summarised))\<lparr>error := Str empty_msg\<rparr>\<rparr>"
    using aborted_submission_frame [of "[]" _ _ "run summarised"] reachable_run d by simp
  then show ?thesis
    using aborted_submission_frame
      [of "[]" FetchRejected "initial_state\<lparr>summary := Str (ascii ''# Hi'')\<rparr>"]
    by (simp add: ascii_def)
qed

text \<open>
  Claim C9. In every reachable state in which the loading flag is true, the URL input
  is rendered disabled, and an attempt to change its text leaves the state as it is:
  the input URL cannot change by keystroke while the flag is set. The flag stays set
  under every event but the settling of a request. When submit events only come from
  the submit button, the flag is set whenever a request is pending, so the input is
  disabled for as long as the request is in flight.
\<close>

theorem input_disabled_while_loading:
  assumes "reachable w" and "isLoading (slots w)"
  shows "input_disabled (view_of w) \<and> step w (Input v) = w
         \<and> isLoading (slots (step w (Elapse n)))
         \<and> isLoading (slots (step w Submit))
         \<and> (ui_reachable w' \<and> inflight w' \<noteq> [] \<longrightarrow>
              isLoading (slots w') \<and> input_disabled (view_of w') \<and> ui_step w' (Input v) = w')"
proof -
  have inv: "app_inv w"
    using assms(1) by (rule reachable_inv)
  have a: "isLoading (slots (step w (Elapse n)))"
    using inv assms(2) by (rule loading_stable) simp
  have b: "isLoading (slots (step w Submit))"
    using inv assms(2) by (rule loading_stable) simp
  have c: "isLoading (slots w') \<and> input_disabled (view_of w') \<and> ui_step w' (Input v) = w'"
    if "ui_reachable w'" and "inflight w' \<noteq> []"
  proof -
    from ui_reachable_inv [OF that(1)] that(2) have "isLoading (slots w')"
      by (auto simp: ui_inv_def)
    then show ?thesis
      by (simp add: view_of_def render_def)
  qed
  from assms(2) a b c show ?thesis
    by (simp add: view_of_def render_def)
qed

theorem input_disabled_while_loading_witness:
  "input_disabled (view_of (run [Input example_url, Elapse 300, Submit]))
   \<and> step (run [Input example_url, Elapse 300, Submit]) (Input [])
     = run [Input example_url, Elapse 300, Submit]
   \<and> isLoading (slots (step (run [Input example_url, Elapse 300, Submit]) (Elapse 300)))
   \<and> input_disabled (view_of (ui_run [Input example_url, Elapse 300, Submit]))"
proof -
  have l: "isLoading (slots (run [Input example_url, Elapse 300, Submit]))"
    by code_simp
  have p: "inflight (ui_run [Input example_url, Elapse 300, Submit]) \<noteq> []"
    by code_simp
  from input_disabled_while_loading
    [OF reachable_run l, of "[]" 300 "ui_run [Input example_url, Elapse 300, Submit]"]
    ui_reachable_ui_run [of "[Input example_url, Elapse 300, Submit]"] p
  show ?thesis
    by simp
qed

lemma ui_live_reachable: "ui_live md w \<Longrightarrow> ui_reachable w"
  by (induction rule: ui_live.induct) (simp_all add: ui_reachable.ui_start ui_reachable.ui_after)

lemma live_run_live: "ui_live md w \<Longrightarrow> live_run md w es = Some w' \<Longrightarrow> ui_live md w'"
proof (induction es arbitrary: w)
  case Nil
  then show ?case by simp
next
  case (Cons e es)
  from Cons.prems(2) obtain ps where ps: "displayed md (view_of w) = Some ps"
    and rest: "live_run md (ui_step w e) es = Some w'"
    by (auto split: option.splits)
  from Cons.prems(1) ps have "ui_live md (ui_step w e)"
    by (rule ui_live.live_after)
  then show ?case
    using rest by (rule Cons.IH)
qed

lemma displayed_strings:
  assumes "error s = Str e" and "summary s = Str m"
  shows "displayed md (render d s) = Some (panel_elements (render d s))"
  using assms by (simp add: displayed_def render_def markdown_child_def)

lemma panel_elements_precedence:
  assumes "\<not> (\<not> isLoading s \<and> truthy (error s) \<and> truthy (summary s))"
  shows "panel_elements (render d s) = spec_visible s"
  using assms by (auto simp: panel_elements_def render_def spec_visible_def spec_panel_def)

text \<open>
  Claim C5, as amended. When the loading flag is true only the spinner is shown. When
  the error and the summary hold strings and the flag is false, the error panel is shown
  exactly when the error is non-empty and the summary panel exactly when the summary is
  non-empty, each whatever the other is. So what is shown is the one panel of the
  precedence rule (spinner, else error panel, else summary panel, else none) in every
  such state but those where the flag is false and the error and the summary are both
  non-empty; there the error panel and the summary panel are both shown. The rule holds
  in every state with a string for the error and for the summary that is reached when
  submit events only come from the submit button. An error that is an object is not a
  string: with the flag false, rendering it throws and no panel is shown.
\<close>

theorem panels_by_precedence_unless_both:
  "(isLoading s \<longrightarrow> displayed md (render d s) = Some [Spinner])
   \<and> (error s = Str e \<and> summary s = Str m \<and> \<not> (\<not> isLoading s \<and> e \<noteq> [] \<and> m \<noteq> []) \<longrightarrow>
        displayed md (render d s) = Some (spec_visible s))
   \<and> (error s = Str e \<and> summary s = Str m \<and> \<not> isLoading s \<and> e \<noteq> [] \<and> m \<noteq> [] \<longrightarrow>
        displayed md (render d s) = Some [ErrorPanel (Str e), SummaryPanel (Str m)])
   \<and> (ui_live md w \<and> error (slots w) = Str e \<and> summary (slots w) = Str m \<longrightarrow>
        displayed md (view_of w) = Some (spec_visible (slots w)))
   \<and> (\<not> isLoading s \<and> error s = Obj kvs \<longrightarrow> displayed md (render d s) = None)"
proof -
  have l: "displayed md (render d s) = Some [Spinner]" if "isLoading s"
    using that by (simp add: displayed_def panel_elements_def render_def)
  have a: "displayed md (render d s) = Some (spec_visible s)"
    if "error s = Str e" and "summary s = Str m"
      and "\<not> (\<not> isLoading s \<and> e \<noteq> [] \<and> m \<noteq> [])" for d s
    using that displayed_strings [OF that(1,2), of md d] panel_elements_precedence [of s d]
    by simp
  have b: "displayed md (render d s) = Some [ErrorPanel (Str e), SummaryPanel (Str m)]"
    if "error s = Str e" and "summary s = Str m" and "\<not> isLoading s" and "e \<noteq> []"
      and "m \<noteq> []"
    using that displayed_strings [OF that(1,2), of md d]
    by (simp add: panel_elements_def render_def)
  have c: "displayed md (view_of w) = Some (spec_visible (slots w))"
    if "ui_live md w" and "error (slots w) = Str e" and "summary (slots w) = Str m"
  proof -
    from that(1) have "ui_inv w"
      by (intro ui_reachable_inv ui_live_reachable)
    with that(2,3) have "\<not> (\<not> isLoading (slots w) \<and> e \<noteq> [] \<and> m \<noteq> [])"
      by (auto simp: ui_inv_def)
    with that(2,3) show ?thesis
      unfolding view_of_def by (rule a)
  qed
  have f: "displayed md (render d s) = None" if "\<not> isLoading s" and "error s = Obj kvs"
    using that by (simp add: displayed_def render_def)
  from l a [of s d] b c f show ?thesis
    by blast
qed

theorem panels_by_precedence_unless_both_witness:
  "displayed refuses_others
       (render [] (initial_state\<lparr>isLoading := True, error := Str net_msg\<rparr>))
     = Some [Spinner]
   \<and> displayed refuses_others (render [] (initial_state\<lparr>error := Str net_msg\<rparr>))
     = Some [ErrorPanel (Str net_msg)]
   \<and> displayed refuses_others (render [] (initial_state\<lparr>summary := Str (ascii ''# Hi'')\<rparr>))
     = Some [SummaryPanel (Str (ascii ''# Hi''))]
   \<and> displayed refuses_others (render [] initial_state) = Some []
   \<and> displayed refuses_others
       (render [] (initial_state\<lparr>error := Str net_msg, summary := Str (ascii ''# Hi'')\<rparr>))
     = Some [ErrorPanel (Str net_msg), SummaryPanel (Str (ascii ''# Hi''))]
   \<and> displayed refuses_others (view_of (ui_run resubmitted))
     = Some [SummaryPanel (Str (ascii ''# Hi''))]
   \<and> displayed refuses_others (render [] (initial_state\<lparr>error := Obj []\<rparr>)) = None"
proof -
  note t = panels_by_precedence_unless_both [where md = refuses_others and d = "[]"]
  have n: "net_msg \<noteq> []"
    by (simp add: net_msg_def)
  have h: "ascii ''# Hi'' \<noteq> []"
    by (simp add: ascii_def)
  have "live_run refuses_others init_app resubmitted = Some (ui_run resubmitted)"
    by code_simp
  with ui_live.live_start have live: "ui_live refuses_others (ui_run resubmitted)"
    by (rule live_run_live)
  have e: "error (slots (ui_run resubmitted)) = Str []"
    and m: "summary (slots (ui_run resubmitted)) = Str (ascii ''# Hi'')"
    and u: "spec_visible (slots (ui_run resubmitted)) = [SummaryPanel (Str (ascii ''# Hi''))]"
    by code_simp+
  have 1: "displayed refuses_others
             (render [] (initial_state\<lparr>isLoading := True, error := Str net_msg\<rparr>))
           = Some [Spinner]"
    using t [where s = "initial_state\<lparr>isLoading := True, error := Str net_msg\<rparr>"]
    by simp
  have 2: "displayed refuses_others (render [] (initial_state\<lparr>error := Str net_msg\<rparr>))
           = Some [ErrorPanel (Str net_msg)]"
    using t [where s = "initial_state\<lparr>error := Str net_msg\<rparr>" and e = net_msg
        and m = "[]"] n
    by (simp add: initial_state_def spec_visible_def spec_panel_def)
  have 3: "displayed refuses_others
             (render [] (initial_state\<lparr>summary := Str (ascii ''# Hi'')\<rparr>))
           = Some [SummaryPanel (Str (ascii ''# Hi''))]"
    using t [where s = "initial_state\<lparr>summary := Str (ascii ''# Hi'')\<rparr>" and e = "[]"
        and m = "ascii ''# Hi''"] h
    by (simp add: initial_state_def spec_visible_def spec_panel_def)
  have 4: "displayed refuses_others (render [] initial_state) = Some []"
    using t [where s = initial_state and e = "[]" and m = "[]"]
    by (simp add: initial_state_def spec_visible_def spec_panel_def)
  have 5: "displayed refuses_others
             (render [] (initial_state\<lparr>error := Str net_msg, summary := Str (ascii ''# Hi'')\<rparr>))
           = Some [ErrorPanel (Str net_msg), SummaryPanel (Str (ascii ''# Hi''))]"
    using t [where s = "initial_state\<lparr>error := Str net_msg, summary := Str (ascii ''# Hi'')\<rparr>"
        and e = net_msg and m = "ascii ''# Hi''"] n h
    by (simp add: initial_state_def)
  have 6: "displayed refuses_others (view_of (ui_run resubmitted))
           = Some [SummaryPanel (Str (ascii ''# Hi''))]"
    using t [where w = "ui_run resubmitted" and e = "[]" and m = "ascii ''# Hi''"] live e m u
    by simp
  have 7: "displayed refuses_others (render [] (initial_state\<lparr>error := Obj []\<rparr>)) = None"
    using t [where s = "initial_state\<lparr>error := Obj []\<rparr>" and kvs = "[]"]
    by (simp add: initial_state_def)
  from 1 2 3 4 5 6 7 show ?thesis
    by simp
qed

text \<open>
  Claim C5, as stated, fails. After a summary has arrived, a submit event that reaches
  the handler with an empty debounced URL sets the error and keeps the summary: the
  state is reachable, the error and the summary are both strings, the error panel and
  the summary panel are both shown, and the precedence rule selects the error panel
  alone.
\<close>

theorem panels_both_shown_counterexample:
  "reachable (run resubmitted)
   \<and> displayed refuses_others (view_of (run resubmitted))
     = Some [ErrorPanel (Str empty_msg), SummaryPanel (Str (ascii ''# Hi''))]
   \<and> spec_visible (slots (run resubmitted)) = [ErrorPanel (Str empty_msg)]"
proof -
  have "displayed refuses_others (view_of (run resubmitted))
          = Some [ErrorPanel (Str empty_msg), SummaryPanel (Str (ascii ''# Hi''))]"
    by code_simp
  moreover have "spec_visible (slots (run resubmitted)) = [ErrorPanel (Str empty_msg)]"
    by code_simp
  ultimately show ?thesis
    by (simp add: reachable_run)
qed

end
